theory Spec2Isabelle
  imports Main "HOL-Library.AList" "HOL-Library.Sublist"
begin

section \<open>The schema aggregation script \<open>generate_full_schema.py\<close>\<close>

text \<open>
  The script is one linear sequence of statements: it lists the working directory,
  keeps the regular files whose name ends with \<open>_response.json\<close>, loads three files
  with fixed names, loads every response file into the \<open>responses\<close> entry of a
  dictionary, and writes the dictionary to \<open>dao_voting_adapter_full_schema.json\<close>.

  The embedding makes the working directory an explicit state. What the script takes
  from the standard library is modelled as follows.
  \<^item> A file name is a \<open>string\<close>. The marker \<open>_response.json\<close> is ASCII, so searching it
    in the UTF-8 bytes of a name finds the same places as searching it in the code
    points of the Python string.
  \<^item> The working directory is an association list from names to entries, in the order
    in which \<open>os.listdir\<close> enumerates it. An entry is a regular file with its text or
    a directory with its own entries. Permissions, special files and concurrent
    changes of the directory are not modelled.
  \<^item> \<open>json.load\<close> and \<open>json.dump\<close> are parameters \<open>load\<close> and \<open>dump\<close>: \<open>load\<close> maps the
    text of a file to the parsed document, or to \<open>None\<close> where \<open>json.load\<close> raises;
    \<open>dump\<close> maps a document to the text written with \<open>indent=2\<close>.
  \<^item> The three \<open>print\<close> statements write to standard output only and are left out.
\<close>

subsection \<open>Documents, directories and errors\<close>

text \<open>
  A parsed document, as \<open>json.load\<close> returns it. The script never looks into a number,
  so the type \<open>'n\<close> of Python numbers (\<open>int\<close> and \<open>float\<close>) is a parameter. A Python
  \<open>dict\<close> keeps its keys in insertion order: it is an association list.
\<close>

datatype 'n json =
    JNull
  | JBool bool
  | JNumber 'n
  | JString string
  | JArray "'n json list"
  | JObject "(string \<times> 'n json) list"

type_synonym 'n dict = "(string \<times> 'n json) list"

datatype entry = File string | Dir "(string \<times> entry) list"

type_synonym directory = "(string \<times> entry) list"

text \<open>The exceptions the statements of the script can raise.\<close>

datatype error =
    FileNotFoundError string
  | IsADirectoryError string
  | JSONDecodeError string
  | KeyError string
  | ValueError
  | IndexError
  | TypeError

subsection \<open>Library operations\<close>

text \<open>\<open>os.listdir(".")\<close>: the names of the entries, not of what is below them.\<close>

definition listdir :: "directory \<Rightarrow> string list" where
  "listdir fs = map fst fs"

text \<open>\<open>os.path.isfile(f)\<close>: the name exists and is a regular file.\<close>

definition isfile :: "directory \<Rightarrow> string \<Rightarrow> bool" where
  "isfile fs f = (case map_of fs f of Some (File _) \<Rightarrow> True | _ \<Rightarrow> False)"

text \<open>\<open>open(name, "r")\<close> followed by reading the whole text.\<close>

definition open_read :: "directory \<Rightarrow> string \<Rightarrow> error + string" where
  "open_read fs name =
     (case map_of fs name of
        None \<Rightarrow> Inl (FileNotFoundError name)
      | Some (Dir _) \<Rightarrow> Inl (IsADirectoryError name)
      | Some (File text) \<Rightarrow> Inr text)"

text \<open>
  \<open>open(name, "w")\<close> followed by writing \<open>text\<close>: the file is created or replaced; a
  directory of that name makes \<open>open\<close> raise.
\<close>

definition open_write :: "directory \<Rightarrow> string \<Rightarrow> string \<Rightarrow> error + directory" where
  "open_write fs name text =
     (case map_of fs name of
        Some (Dir _) \<Rightarrow> Inl (IsADirectoryError name)
      | _ \<Rightarrow> Inr (AList.update name (File text) fs))"

text \<open>\<open>with open(name, "r") as f: json.load(f)\<close>.\<close>

definition load_file ::
  "(string \<Rightarrow> 'n json option) \<Rightarrow> directory \<Rightarrow> string \<Rightarrow> error + 'n json" where
  "load_file load fs name =
     (case open_read fs name of
        Inl e \<Rightarrow> Inl e
      | Inr text \<Rightarrow>
          (case load text of
             None \<Rightarrow> Inl (JSONDecodeError name)
           | Some v \<Rightarrow> Inr v))"

text \<open>\<open>s.startswith(p)\<close> and \<open>s.endswith(p)\<close>.\<close>

fun startswith :: "string \<Rightarrow> string \<Rightarrow> bool" where
  "startswith s [] = True"
| "startswith [] (p # ps) = False"
| "startswith (c # cs) (p # ps) = (c = p \<and> startswith cs ps)"

definition endswith :: "string \<Rightarrow> string \<Rightarrow> bool" where
  "endswith s p = (length p \<le> length s \<and> drop (length s - length p) s = p)"

text \<open>
  \<open>s.split(sep)\<close>: the pieces of \<open>s\<close> between the occurrences of \<open>sep\<close>, found from left
  to right without overlap; \<open>piece\<close> is the piece being read. An empty separator
  raises \<open>ValueError\<close>.
\<close>

function split_aux :: "string \<Rightarrow> string \<Rightarrow> string \<Rightarrow> string list" where
  "split_aux sep piece [] = [piece]"
| "split_aux sep piece (c # cs) =
     (if sep \<noteq> [] \<and> startswith (c # cs) sep
      then piece # split_aux sep [] (drop (length sep) (c # cs))
      else split_aux sep (piece @ [c]) cs)"
  by pat_completeness auto
termination
  by (relation "measure (\<lambda>(sep, piece, s). length s)") auto

definition split :: "string \<Rightarrow> string \<Rightarrow> error + string list" where
  "split s sep = (if sep = [] then Inl ValueError else Inr (split_aux sep [] s))"

text \<open>\<open>xs[0]\<close>.\<close>

definition item0 :: "'a list \<Rightarrow> error + 'a" where
  "item0 xs = (case xs of [] \<Rightarrow> Inl IndexError | x # _ \<Rightarrow> Inr x)"

text \<open>\<open>d[k]\<close> on a dictionary.\<close>

definition getitem :: "'n dict \<Rightarrow> string \<Rightarrow> error + 'n json" where
  "getitem d k = (case map_of d k of None \<Rightarrow> Inl (KeyError k) | Some v \<Rightarrow> Inr v)"

text \<open>
  \<open>target[k] = v\<close> with a string key: a dictionary keeps the place of a key it already
  has and appends a new one; no other document takes a string subscript.
\<close>

fun setitem :: "'n json \<Rightarrow> string \<Rightarrow> 'n json \<Rightarrow> error + 'n json" where
  "setitem (JObject d) k v = Inr (JObject (AList.update k v d))"
| "setitem _ k v = Inl TypeError"

subsection \<open>The script\<close>

text \<open>Lines 6 to 13: the dictionary the script starts from.\<close>

definition schema :: "'n dict" where
  "schema =
     [(''instantiate'', JObject []),
      (''execute'', JObject []),
      (''query'', JObject []),
      (''migrate'', JObject []),
      (''sudo'', JObject []),
      (''responses'', JObject [])]"

text \<open>Lines 15 to 19. The script defines the list and never reads it.\<close>

definition required :: "string list" where
  "required = [''instantiate_msg.json'', ''execute_msg.json'', ''query_msg.json'']"

text \<open>Line 24.\<close>

definition files :: "directory \<Rightarrow> string list" where
  "files fs = filter (isfile fs) (listdir fs)"

text \<open>Lines 21 and 25 to 27.\<close>

definition responses :: "directory \<Rightarrow> string list" where
  "responses fs = filter (\<lambda>f. endswith f ''_response.json'') (files fs)"

text \<open>
  Lines 40 to 42, the loop over the response files. Python evaluates the right-hand
  side \<open>json.load(f)\<close> first, then \<open>schema["responses"]\<close>, then the subscript
  \<open>file.split("_response.json")[0]\<close>, then stores.
\<close>

definition response_key :: "string \<Rightarrow> error + string" where
  "response_key file =
     (case split file ''_response.json'' of
        Inl e \<Rightarrow> Inl e
      | Inr pieces \<Rightarrow> item0 pieces)"

fun collect ::
  "(string \<Rightarrow> 'n json option) \<Rightarrow> directory \<Rightarrow> string list \<Rightarrow> 'n dict \<Rightarrow> error + 'n dict" where
  "collect load fs [] sch = Inr sch"
| "collect load fs (file # rest) sch =
     (case load_file load fs file of
        Inl e \<Rightarrow> Inl e
      | Inr v \<Rightarrow>
          (case getitem sch ''responses'' of
             Inl e \<Rightarrow> Inl e
           | Inr target \<Rightarrow>
               (case response_key file of
                  Inl e \<Rightarrow> Inl e
                | Inr k \<Rightarrow>
                    (case setitem target k v of
                       Inl e \<Rightarrow> Inl e
                     | Inr target' \<Rightarrow>
                         collect load fs rest
                           (AList.update ''responses'' target' sch)))))"

text \<open>Lines 6 to 42: everything before the output file is opened.\<close>

definition compose :: "(string \<Rightarrow> 'n json option) \<Rightarrow> directory \<Rightarrow> error + 'n dict" where
  "compose load fs =
     (case load_file load fs ''instantiate_msg.json'' of
        Inl e \<Rightarrow> Inl e
      | Inr i \<Rightarrow>
          (case load_file load fs ''execute_msg.json'' of
             Inl e \<Rightarrow> Inl e
           | Inr x \<Rightarrow>
               (case load_file load fs ''query_msg.json'' of
                  Inl e \<Rightarrow> Inl e
                | Inr q \<Rightarrow>
                    collect load fs (responses fs)
                      (AList.update ''query'' q
                        (AList.update ''execute'' x
                          (AList.update ''instantiate'' i schema))))))"

text \<open>Lines 44 and 45.\<close>

definition output_name :: string where
  "output_name = ''dao_voting_adapter_full_schema.json''"

text \<open>
  The whole run: the outcome and the working directory it leaves. An exception that
  nothing catches ends the interpreter with exit status 1.
\<close>

definition run ::
  "(string \<Rightarrow> 'n json option) \<Rightarrow> ('n json \<Rightarrow> string) \<Rightarrow> directory
     \<Rightarrow> (error + unit) \<times> directory" where
  "run load dump fs =
     (case compose load fs of
        Inl e \<Rightarrow> (Inl e, fs)
      | Inr sch \<Rightarrow>
          (case open_write fs output_name (dump (JObject sch)) of
             Inl e \<Rightarrow> (Inl e, fs)
           | Inr fs' \<Rightarrow> (Inr (), fs')))"

definition exit_status :: "error + unit \<Rightarrow> nat" where
  "exit_status r = (case r of Inl _ \<Rightarrow> 1 | Inr _ \<Rightarrow> 0)"

subsection \<open>Notions of the specification\<close>

text \<open>
  The text of \<open>s\<close> before the first occurrence of \<open>sep\<close> (all of \<open>s\<close> when there is
  none), and the text before the last occurrence, found by reading \<open>s\<close> backwards.
\<close>

fun before_first :: "string \<Rightarrow> string \<Rightarrow> string" where
  "before_first sep [] = []"
| "before_first sep (c # cs) =
     (if startswith (c # cs) sep then [] else c # before_first sep cs)"

definition before_last :: "string \<Rightarrow> string \<Rightarrow> string" where
  "before_last sep s =
     rev (drop (length (before_first (rev sep) (rev s)) + length sep) (rev s))"

definition key_of :: "string \<Rightarrow> string" where
  "key_of f = before_first ''_response.json'' f"

text \<open>The Fragment of a file name: the parsed document, where there is one.\<close>

definition parsed ::
  "(string \<Rightarrow> 'n json option) \<Rightarrow> directory \<Rightarrow> string \<Rightarrow> 'n json option" where
  "parsed load fs name =
     (case map_of fs name of Some (File text) \<Rightarrow> load text | _ \<Rightarrow> None)"

text \<open>
  The response mapping: the ResponseEntries of the files \<open>fl\<close>, accumulated in their
  order onto \<open>r\<close>, a later entry replacing an earlier one of the same key.
\<close>

definition merged ::
  "(string \<Rightarrow> 'n json option) \<Rightarrow> directory \<Rightarrow> string list \<Rightarrow> 'n dict \<Rightarrow> 'n dict" where
  "merged load fs fl r =
     fold (\<lambda>f d. case parsed load fs f of
                    None \<Rightarrow> d
                  | Some v \<Rightarrow> AList.update (key_of f) v d) fl r"

text \<open>
  The ComposedSchema built from the three mandatory Fragments and a response mapping
  (sections 3 and 4.4 of the specification).
\<close>

definition composed :: "'n json \<Rightarrow> 'n json \<Rightarrow> 'n json \<Rightarrow> 'n dict \<Rightarrow> 'n dict" where
  "composed i x q rs =
     [(''instantiate'', i),
      (''execute'', x),
      (''query'', q),
      (''migrate'', JObject []),
      (''sudo'', JObject []),
      (''responses'', JObject rs)]"

text \<open>A directory with what is below its subdirectories removed.\<close>

definition top_level :: "directory \<Rightarrow> directory" where
  "top_level fs =
     map (\<lambda>(name, e). (name, case e of File text \<Rightarrow> File text | Dir _ \<Rightarrow> Dir [])) fs"

subsection \<open>Concrete inputs\<close>

text \<open>
  A parser and a printer for the closed instances below. The parser knows four
  documents and rejects every other text; the printer writes a document on one line.
\<close>

definition demo_load :: "string \<Rightarrow> nat json option" where
  "demo_load text =
     (if text = ''{}'' then Some (JObject [])
      else if text = ''[]'' then Some (JArray [])
      else if text = ''null'' then Some JNull
      else if text = ''true'' then Some (JBool True)
      else None)"

fun demo_dump :: "nat json \<Rightarrow> string" where
  "demo_dump JNull = ''null''"
| "demo_dump (JBool b) = (if b then ''true'' else ''false'')"
| "demo_dump (JNumber n) = replicate n CHR ''1''"
| "demo_dump (JString s) = ''\"'' @ s @ ''\"''"
| "demo_dump (JArray xs) = ''['' @ concat (map (\<lambda>x. demo_dump x @ '','') xs) @ '']''"
| "demo_dump (JObject kvs) =
     ''{'' @ concat (map (\<lambda>(k, v). k @ '':'' @ demo_dump v @ '','') kvs) @ ''}''"

text \<open>
  A working directory with the three mandatory files, a subdirectory, a file that is
  no fragment, and three response files of which two derive the key \<open>foo\<close>.
\<close>

definition dir_full :: directory where
  "dir_full =
     [(''instantiate_msg.json'', File ''{}''),
      (''notes'', Dir [(''deep_response.json'', File ''null'')]),
      (''execute_msg.json'', File ''[]''),
      (''query_msg.json'', File ''null''),
      (''get_vote_response.json'', File ''true''),
      (''foo_response.json'', File ''null''),
      (''README.md'', File ''# schema''),
      (''foo_response.json_response.json'', File ''[]'')]"

text \<open>The same without \<open>execute_msg.json\<close>, and with an output of an earlier run.\<close>

definition dir_missing :: directory where
  "dir_missing =
     [(''instantiate_msg.json'', File ''{}''),
      (''query_msg.json'', File ''null''),
      (''get_vote_response.json'', File ''true''),
      (''dao_voting_adapter_full_schema.json'', File ''old'')]"

text \<open>A directory whose \<open>query_msg.json\<close> is no document.\<close>

definition dir_malformed :: directory where
  "dir_malformed =
     [(''instantiate_msg.json'', File ''{}''),
      (''execute_msg.json'', File ''[]''),
      (''query_msg.json'', File ''{oops''),
      (''get_vote_response.json'', File ''true'')]"

text \<open>
  Two directories with a file named \<open>_response.json\<close>: alone, and followed by a
  second response file whose name starts with the marker.
\<close>

definition dir_marker_only :: directory where
  "dir_marker_only =
     [(''instantiate_msg.json'', File ''{}''),
      (''execute_msg.json'', File ''{}''),
      (''query_msg.json'', File ''{}''),
      (''_response.json'', File ''null'')]"

definition dir_marker_twice :: directory where
  "dir_marker_twice =
     [(''instantiate_msg.json'', File ''{}''),
      (''execute_msg.json'', File ''{}''),
      (''query_msg.json'', File ''{}''),
      (''_response.json'', File ''null''),
      (''_response.json_response.json'', File ''[]'')]"

text \<open>What the script composes in \<open>dir_full\<close>, and the directory its run leaves.\<close>

definition dir_full_schema :: "nat dict" where
  "dir_full_schema =
     [(''instantiate'', JObject []),
      (''execute'', JArray []),
      (''query'', JNull),
      (''migrate'', JObject []),
      (''sudo'', JObject []),
      (''responses'', JObject [(''get_vote'', JBool True), (''foo'', JArray [])])]"

definition dir_full_after :: directory where
  "dir_full_after =
     dir_full @
     [(''dao_voting_adapter_full_schema.json'', File (demo_dump (JObject dir_full_schema)))]"

text \<open>A directory whose one response file has the text \<open>_response\<close> three times in its name.\<close>

definition dir_nested :: directory where
  "dir_nested =
     [(''instantiate_msg.json'', File ''{}''),
      (''execute_msg.json'', File ''{}''),
      (''query_msg.json'', File ''{}''),
      (''a_response_b_response.json_response.json'', File ''null'')]"

section \<open>Properties\<close>

subsection \<open>Strings\<close>

lemma startswith_prefix: "startswith s p \<longleftrightarrow> prefix p s"
  by (induction s p rule: startswith.induct) auto

lemma endswith_suffix: "endswith s p \<longleftrightarrow> suffix p s"
  unfolding endswith_def suffix_def
  by (metis append_eq_conv_conj append_take_drop_id diff_add_inverse2 length_append
      length_drop le_add2)

lemma split_aux_first:
  "sep \<noteq> [] \<Longrightarrow> \<exists>rest. split_aux sep piece s = (piece @ before_first sep s) # rest"
  by (induction sep piece s rule: split_aux.induct) auto

lemma response_key_eq: "response_key f = Inr (key_of f)"
proof -
  obtain rest where "split_aux ''_response.json'' [] f = key_of f # rest"
    using split_aux_first [of "''_response.json''" "[]" f] by (auto simp: key_of_def)
  then show ?thesis by (simp add: response_key_def split_def item0_def)
qed

lemma before_first_decomp:
  "s = p @ sep @ r \<Longrightarrow>
     \<exists>r'. s = before_first sep s @ sep @ r' \<and> length (before_first sep s) \<le> length p"
proof (induction s arbitrary: p)
  case Nil
  then show ?case by simp
next
  case (Cons c cs)
  show ?case
  proof (cases "startswith (c # cs) sep")
    case True
    then show ?thesis by (auto simp: startswith_prefix prefix_def)
  next
    case False
    then have "p \<noteq> []" using Cons.prems by (auto simp: startswith_prefix)
    then obtain p' where p: "p = c # p'" and cs: "cs = p' @ sep @ r"
      using Cons.prems by (cases p) auto
    from Cons.IH [OF cs] obtain r' where "cs = before_first sep cs @ sep @ r'"
      and "length (before_first sep cs) \<le> length p'" by blast
    with False p show ?thesis by auto
  qed
qed

subsection \<open>Loading and the loop over the response files\<close>

lemma load_file_parsed:
  "load_file load fs name = Inr v \<longleftrightarrow> parsed load fs name = Some v"
  by (auto simp: load_file_def open_read_def parsed_def split: option.splits entry.splits)

lemma load_file_fails:
  "parsed load fs name = None \<Longrightarrow> \<exists>e. load_file load fs name = Inl e"
  by (cases "load_file load fs name") (auto simp: load_file_parsed)

lemma merged_Cons:
  "parsed load fs f = Some v \<Longrightarrow>
     merged load fs (f # fl) r = merged load fs fl (AList.update (key_of f) v r)"
  by (simp add: merged_def)

lemma collect_ok:
  "map_of sch ''responses'' = Some (JObject r) \<Longrightarrow>
   \<forall>f \<in> set fl. parsed load fs f \<noteq> None \<Longrightarrow>
   collect load fs fl sch =
     Inr (AList.update ''responses'' (JObject (merged load fs fl r)) sch)"
proof (induction fl arbitrary: sch r)
  case Nil
  then show ?case by (simp add: merged_def update_triv)
next
  case (Cons f fl)
  from Cons.prems obtain v where v: "parsed load fs f = Some v" by auto
  then have lf: "load_file load fs f = Inr v" by (simp add: load_file_parsed)
  let ?sch = "AList.update ''responses'' (JObject (AList.update (key_of f) v r)) sch"
  have m: "map_of ?sch ''responses'' = Some (JObject (AList.update (key_of f) v r))"
    by (simp add: update_conv')
  have "collect load fs (f # fl) sch = collect load fs fl ?sch"
    using lf Cons.prems(1) by (simp add: getitem_def response_key_eq)
  also have "\<dots> = Inr (AList.update ''responses''
       (JObject (merged load fs fl (AList.update (key_of f) v r))) ?sch)"
    using Cons.IH [OF m] Cons.prems(2) by simp
  finally show ?case by (simp add: merged_Cons [OF v])
qed

lemma collect_fails:
  "f \<in> set fl \<Longrightarrow> parsed load fs f = None \<Longrightarrow> \<exists>e. collect load fs fl sch = Inl e"
proof (induction fl arbitrary: sch)
  case Nil
  then show ?case by simp
next
  case (Cons g fl)
  show ?case
  proof (cases "load_file load fs g")
    case (Inl e)
    then show ?thesis by simp
  next
    case (Inr v)
    then have "g \<noteq> f" using Cons.prems(2) by (auto simp: load_file_parsed)
    then have "f \<in> set fl" using Cons.prems(1) by simp
    from Cons.IH [OF this Cons.prems(2)] Inr show ?thesis
      by (auto split: sum.splits)
  qed
qed

subsection \<open>What the script composes\<close>

lemma compose_ok:
  assumes "parsed load fs ''instantiate_msg.json'' = Some i"
    and "parsed load fs ''execute_msg.json'' = Some x"
    and "parsed load fs ''query_msg.json'' = Some q"
    and "\<forall>f \<in> set (responses fs). parsed load fs f \<noteq> None"
  shows "compose load fs = Inr (composed i x q (merged load fs (responses fs) []))"
proof -
  let ?sch = "AList.update ''query'' q (AList.update ''execute'' x
                (AList.update ''instantiate'' i schema))"
  have sch: "?sch = composed i x q []"
    by (simp add: schema_def composed_def)
  have "collect load fs (responses fs) (composed i x q []) =
          Inr (AList.update ''responses'' (JObject (merged load fs (responses fs) []))
                 (composed i x q []))"
    by (rule collect_ok [OF _ assms(4)]) (simp add: composed_def)
  then show ?thesis
    using assms(1-3)
    by (simp add: compose_def load_file_parsed [THEN iffD2] sch) (simp add: composed_def)
qed

lemma compose_Inr:
  assumes "compose load fs = Inr sch"
  shows "\<exists>i x q. parsed load fs ''instantiate_msg.json'' = Some i
           \<and> parsed load fs ''execute_msg.json'' = Some x
           \<and> parsed load fs ''query_msg.json'' = Some q
           \<and> (\<forall>f \<in> set (responses fs). parsed load fs f \<noteq> None)
           \<and> sch = composed i x q (merged load fs (responses fs) [])"
proof -
  from assms obtain i x q where
    i: "load_file load fs ''instantiate_msg.json'' = Inr i" and
    x: "load_file load fs ''execute_msg.json'' = Inr x" and
    q: "load_file load fs ''query_msg.json'' = Inr q" and
    c: "collect load fs (responses fs)
          (AList.update ''query'' q (AList.update ''execute'' x
             (AList.update ''instantiate'' i schema))) = Inr sch"
    by (auto simp: compose_def split: sum.splits)
  have all: "\<forall>f \<in> set (responses fs). parsed load fs f \<noteq> None"
  proof (rule ccontr)
    assume "\<not> ?thesis"
    then obtain f where "f \<in> set (responses fs)" "parsed load fs f = None" by auto
    from collect_fails [OF this] c show False by (metis sum.distinct(1))
  qed
  from i x q have p: "parsed load fs ''instantiate_msg.json'' = Some i"
    "parsed load fs ''execute_msg.json'' = Some x"
    "parsed load fs ''query_msg.json'' = Some q"
    by (simp_all add: load_file_parsed)
  from compose_ok [OF p all] assms p all show ?thesis by auto
qed

subsection \<open>Runs that abort\<close>

lemma run_compose_fails:
  "compose load fs = Inl e \<Longrightarrow> run load dump fs = (Inl e, fs)"
  by (simp add: run_def)

lemma compose_fails:
  assumes "name \<in> set required \<union> set (responses fs)" and "parsed load fs name = None"
  shows "\<exists>e. compose load fs = Inl e"
proof (cases "compose load fs")
  case (Inl e)
  then show ?thesis by blast
next
  case (Inr sch)
  from compose_Inr [OF Inr] assms show ?thesis
    by (auto simp: required_def)
qed

lemma run_aborts:
  assumes "name \<in> set required \<union> set (responses fs)" and "parsed load fs name = None"
  shows "exit_status (fst (run load dump fs)) \<noteq> 0 \<and> snd (run load dump fs) = fs"
proof -
  from compose_fails [OF assms] obtain e where "compose load fs = Inl e" by blast
  then show ?thesis by (simp add: run_compose_fails exit_status_def)
qed

text \<open>
  Claim C1. If one of the three mandatory files \<open>instantiate_msg.json\<close>,
  \<open>execute_msg.json\<close>, \<open>query_msg.json\<close> does not exist in the working directory, the
  run ends with a non-zero exit status and leaves the working directory as it was:
  the output file is neither created nor overwritten.
\<close>

theorem missing_required_file_aborts:
  assumes "name \<in> set required" and "map_of fs name = None"
  shows "exit_status (fst (run load dump fs)) \<noteq> 0 \<and> snd (run load dump fs) = fs"
proof -
  have "parsed load fs name = None" using assms(2) by (simp add: parsed_def)
  with assms(1) show ?thesis using run_aborts [of name fs load dump] by simp
qed

text \<open>
  An instance: without \<open>execute_msg.json\<close> the run raises \<open>FileNotFoundError\<close> and the
  output of an earlier run stays as it is.
\<close>

theorem missing_required_file_aborts_witness:
  "''execute_msg.json'' \<in> set required
   \<and> map_of dir_missing ''execute_msg.json'' = None
   \<and> run demo_load demo_dump dir_missing
       = (Inl (FileNotFoundError ''execute_msg.json''), dir_missing)
   \<and> exit_status (fst (run demo_load demo_dump dir_missing)) \<noteq> 0
   \<and> snd (run demo_load demo_dump dir_missing) = dir_missing"
proof -
  have r: "''execute_msg.json'' \<in> set required" by (simp add: required_def)
  have m: "map_of dir_missing ''execute_msg.json'' = None" by (simp add: dir_missing_def)
  have e: "run demo_load demo_dump dir_missing
             = (Inl (FileNotFoundError ''execute_msg.json''), dir_missing)"
    by (simp add: run_def compose_def load_file_def open_read_def demo_load_def
        dir_missing_def)
  from r m e missing_required_file_aborts [OF r m, of demo_load demo_dump] show ?thesis
    by simp
qed

text \<open>
  Claim C5. If a fragment fails to parse, one of the three mandatory files or a
  collected response file, the run ends with a non-zero exit status and leaves the
  working directory as it was: no output is written, in part or in whole.
\<close>

theorem malformed_fragment_aborts:
  assumes "name \<in> set required \<union> set (responses fs)"
    and "map_of fs name = Some (File text)" and "load text = None"
  shows "exit_status (fst (run load dump fs)) \<noteq> 0 \<and> snd (run load dump fs) = fs"
proof -
  have "parsed load fs name = None" using assms(2,3) by (simp add: parsed_def)
  with assms(1) show ?thesis using run_aborts [of name fs load dump] by simp
qed

text \<open>An instance: a \<open>query_msg.json\<close> that is no document.\<close>

theorem malformed_fragment_aborts_witness:
  "''query_msg.json'' \<in> set required \<union> set (responses dir_malformed)
   \<and> map_of dir_malformed ''query_msg.json'' = Some (File ''{oops'')
   \<and> demo_load ''{oops'' = None
   \<and> run demo_load demo_dump dir_malformed
       = (Inl (JSONDecodeError ''query_msg.json''), dir_malformed)
   \<and> exit_status (fst (run demo_load demo_dump dir_malformed)) \<noteq> 0
   \<and> snd (run demo_load demo_dump dir_malformed) = dir_malformed"
proof -
  have r: "''query_msg.json'' \<in> set required \<union> set (responses dir_malformed)"
    by (simp add: required_def)
  have m: "map_of dir_malformed ''query_msg.json'' = Some (File ''{oops'')"
    by (simp add: dir_malformed_def)
  have l: "demo_load ''{oops'' = None" by (simp add: demo_load_def)
  have e: "run demo_load demo_dump dir_malformed
             = (Inl (JSONDecodeError ''query_msg.json''), dir_malformed)"
    by (simp add: run_def compose_def load_file_def open_read_def demo_load_def
        dir_malformed_def)
  from r m l e
    malformed_fragment_aborts
      [of "''query_msg.json''" dir_malformed "''{oops''" demo_load demo_dump]
  show ?thesis by simp
qed

subsection \<open>Runs that succeed\<close>

lemma run_success:
  assumes "run load dump fs = (Inr (), fs')"
  shows "\<exists>sch. compose load fs = Inr sch
           \<and> fs' = AList.update output_name (File (dump (JObject sch))) fs"
  using assms
  by (auto simp: run_def open_write_def split: sum.splits option.splits entry.splits)

lemma run_ok:
  assumes "compose load fs = Inr sch" and "\<forall>d. map_of fs output_name \<noteq> Some (Dir d)"
  shows "run load dump fs = (Inr (), AList.update output_name (File (dump (JObject sch))) fs)"
  using assms
  by (auto simp: run_def open_write_def split: sum.splits option.splits entry.splits)

text \<open>
  Claim C2. After a successful run the output file holds the printed form of the
  dictionary the script composed; that dictionary has exactly the six keys
  \<open>instantiate\<close>, \<open>execute\<close>, \<open>query\<close>, \<open>migrate\<close>, \<open>sudo\<close>, \<open>responses\<close>, and its
  values under \<open>migrate\<close> and \<open>sudo\<close> are the empty mapping.
\<close>

theorem emitted_document_has_six_keys:
  assumes "run load dump fs = (Inr (), fs')"
  shows "\<exists>sch. compose load fs = Inr sch
           \<and> map_of fs' output_name = Some (File (dump (JObject sch)))
           \<and> map fst sch =
               [''instantiate'', ''execute'', ''query'', ''migrate'', ''sudo'', ''responses'']
           \<and> getitem sch ''migrate'' = Inr (JObject [])
           \<and> getitem sch ''sudo'' = Inr (JObject [])"
proof -
  from run_success [OF assms] obtain sch where c: "compose load fs = Inr sch"
    and fs': "fs' = AList.update output_name (File (dump (JObject sch))) fs" by blast
  from compose_Inr [OF c] obtain i x q rs where sch: "sch = composed i x q rs" by blast
  have "map_of fs' output_name = Some (File (dump (JObject sch)))"
    by (simp add: fs' update_conv')
  moreover have "map fst sch =
      [''instantiate'', ''execute'', ''query'', ''migrate'', ''sudo'', ''responses'']"
    by (simp add: sch composed_def)
  moreover have "getitem sch ''migrate'' = Inr (JObject [])"
    by (simp add: sch composed_def getitem_def)
  moreover have "getitem sch ''sudo'' = Inr (JObject [])"
    by (simp add: sch composed_def getitem_def)
  ultimately show ?thesis using c by (intro exI [of _ sch] conjI)
qed

text \<open>An instance: the run in \<open>dir_full\<close>.\<close>

theorem emitted_document_has_six_keys_witness:
  "run demo_load demo_dump dir_full = (Inr (), dir_full_after)
   \<and> (\<exists>sch. compose demo_load dir_full = Inr sch
           \<and> map_of dir_full_after output_name = Some (File (demo_dump (JObject sch)))
           \<and> map fst sch =
               [''instantiate'', ''execute'', ''query'', ''migrate'', ''sudo'', ''responses'']
           \<and> getitem sch ''migrate'' = Inr (JObject [])
           \<and> getitem sch ''sudo'' = Inr (JObject []))"
proof -
  have r: "run demo_load demo_dump dir_full = (Inr (), dir_full_after)" by code_simp
  from emitted_document_has_six_keys [OF r] r show ?thesis by simp
qed

text \<open>
  Claim C3, as stated: after a successful run the value under \<open>instantiate\<close> is the
  parsed \<open>instantiate_msg.json\<close>, and the values under \<open>execute\<close> and under \<open>query\<close> are
  both the parsed \<open>query_msg.json\<close>. The part on \<open>execute\<close> fails: in \<open>dir_full\<close> the
  run succeeds, \<open>query_msg.json\<close> parses to \<open>null\<close> and the value under \<open>execute\<close> is
  the empty array of \<open>execute_msg.json\<close>.
\<close>

theorem execute_is_not_query_counterexample:
  "fst (run demo_load demo_dump dir_full) = Inr ()
   \<and> compose demo_load dir_full = Inr dir_full_schema
   \<and> getitem dir_full_schema ''execute'' = Inr (JArray [])
   \<and> load_file demo_load dir_full ''query_msg.json'' = Inr JNull
   \<and> getitem dir_full_schema ''execute'' \<noteq> load_file demo_load dir_full ''query_msg.json''"
  by code_simp

text \<open>
  Claim C3, amended: after a successful run the values under \<open>instantiate\<close>, \<open>execute\<close>
  and \<open>query\<close> of the emitted document are the parsed contents of
  \<open>instantiate_msg.json\<close>, \<open>execute_msg.json\<close> and \<open>query_msg.json\<close>, each unchanged.
\<close>

theorem fragments_pass_through:
  assumes "run load dump fs = (Inr (), fs')"
  shows "\<exists>sch i x q. compose load fs = Inr sch
           \<and> map_of fs' output_name = Some (File (dump (JObject sch)))
           \<and> load_file load fs ''instantiate_msg.json'' = Inr i
           \<and> load_file load fs ''execute_msg.json'' = Inr x
           \<and> load_file load fs ''query_msg.json'' = Inr q
           \<and> getitem sch ''instantiate'' = Inr i
           \<and> getitem sch ''execute'' = Inr x
           \<and> getitem sch ''query'' = Inr q"
proof -
  from run_success [OF assms] obtain sch where c: "compose load fs = Inr sch"
    and fs': "fs' = AList.update output_name (File (dump (JObject sch))) fs" by blast
  from compose_Inr [OF c] obtain i x q rs where
    p: "parsed load fs ''instantiate_msg.json'' = Some i"
       "parsed load fs ''execute_msg.json'' = Some x"
       "parsed load fs ''query_msg.json'' = Some q"
    and sch: "sch = composed i x q rs" by blast
  have w: "map_of fs' output_name = Some (File (dump (JObject sch)))"
    by (simp add: fs' update_conv')
  have g: "getitem sch ''instantiate'' = Inr i" "getitem sch ''execute'' = Inr x"
    "getitem sch ''query'' = Inr q"
    by (simp_all add: sch composed_def getitem_def)
  from p have l: "load_file load fs ''instantiate_msg.json'' = Inr i"
    "load_file load fs ''execute_msg.json'' = Inr x"
    "load_file load fs ''query_msg.json'' = Inr q"
    by (simp_all add: load_file_parsed)
  from c w l g show ?thesis
    by (intro exI [of _ sch] exI [of _ i] exI [of _ x] exI [of _ q] conjI)
qed

text \<open>An instance: the three fragments of \<open>dir_full\<close>.\<close>

theorem fragments_pass_through_witness:
  "run demo_load demo_dump dir_full = (Inr (), dir_full_after)
   \<and> (\<exists>sch i x q. compose demo_load dir_full = Inr sch
           \<and> map_of dir_full_after output_name = Some (File (demo_dump (JObject sch)))
           \<and> load_file demo_load dir_full ''instantiate_msg.json'' = Inr i
           \<and> load_file demo_load dir_full ''execute_msg.json'' = Inr x
           \<and> load_file demo_load dir_full ''query_msg.json'' = Inr q
           \<and> getitem sch ''instantiate'' = Inr i
           \<and> getitem sch ''execute'' = Inr x
           \<and> getitem sch ''query'' = Inr q)"
proof -
  have r: "run demo_load demo_dump dir_full = (Inr (), dir_full_after)" by code_simp
  from fragments_pass_through [OF r] r show ?thesis by simp
qed

subsection \<open>Discovery of the response files\<close>

lemma isfile_iff: "isfile fs f \<longleftrightarrow> (\<exists>text. map_of fs f = Some (File text))"
  by (auto simp: isfile_def split: option.splits entry.splits)

lemma responses_filter:
  "responses fs =
     filter (\<lambda>f. (\<exists>text. map_of fs f = Some (File text)) \<and> suffix ''_response.json'' f)
       (map fst fs)"
  by (simp add: responses_def files_def listdir_def isfile_iff endswith_suffix conj_commute)

lemma map_of_top_level:
  "map_of (top_level fs) f =
     map_option (\<lambda>e. case e of File text \<Rightarrow> File text | Dir _ \<Rightarrow> Dir []) (map_of fs f)"
  by (induction fs) (auto simp: top_level_def)

lemma responses_top_level: "responses (top_level fs) = responses fs"
proof -
  have "map fst (top_level fs) = map fst fs"
    by (simp add: top_level_def case_prod_unfold comp_def)
  moreover have "(\<exists>text. map_of (top_level fs) f = Some (File text))
      \<longleftrightarrow> (\<exists>text. map_of fs f = Some (File text))" for f
    by (cases "map_of fs f") (auto simp: map_of_top_level split: entry.splits)
  ultimately show ?thesis by (simp add: responses_filter)
qed

lemma merged_keys:
  "\<forall>f \<in> set fl. parsed load fs f \<noteq> None \<Longrightarrow>
     fst ` set (merged load fs fl r) = fst ` set r \<union> key_of ` set fl"
proof (induction fl arbitrary: r)
  case Nil
  then show ?case by (simp add: merged_def)
next
  case (Cons f fl)
  then obtain v where v: "parsed load fs f = Some v" by auto
  from Cons.IH [of "AList.update (key_of f) v r"] Cons.prems
  show ?case by (simp add: merged_Cons [OF v] dom_update)
qed

lemma key_of_image:
  "key_of ` set fl = {k. \<exists>f \<in> set fl. response_key f = Inr k}"
  by (auto simp: response_key_eq)

text \<open>
  Claim C7. The response files are exactly the names of the working directory, in
  the order of the listing, that are regular files and end with \<open>_response.json\<close>.
  What is below a subdirectory plays no part. In a run that composes a dictionary,
  every one of these files is loaded, and the keys of \<open>responses\<close> are the keys derived
  from these files and no other.
\<close>

theorem discovery_selects_marked_regular_files:
  "responses fs =
     filter (\<lambda>f. (\<exists>text. map_of fs f = Some (File text)) \<and> suffix ''_response.json'' f)
       (map fst fs)
   \<and> responses (top_level fs) = responses fs
   \<and> (\<forall>load sch. compose load fs = Inr sch \<longrightarrow>
         (\<forall>f \<in> set (responses fs). \<exists>v. load_file load fs f = Inr v)
         \<and> (\<exists>rs. getitem sch ''responses'' = Inr (JObject rs)
               \<and> fst ` set rs = {k. \<exists>f \<in> set (responses fs). response_key f = Inr k}))"
proof (intro conjI allI impI)
  show "responses fs =
     filter (\<lambda>f. (\<exists>text. map_of fs f = Some (File text)) \<and> suffix ''_response.json'' f)
       (map fst fs)"
    by (rule responses_filter)
  show "responses (top_level fs) = responses fs" by (rule responses_top_level)
next
  fix load :: "string \<Rightarrow> 'a json option" and sch
  assume c: "compose load fs = Inr sch"
  from compose_Inr [OF c] obtain i x q where
    all: "\<forall>f \<in> set (responses fs). parsed load fs f \<noteq> None"
    and sch: "sch = composed i x q (merged load fs (responses fs) [])" by blast
  from all show "\<forall>f \<in> set (responses fs). \<exists>v. load_file load fs f = Inr v"
    by (auto simp: load_file_parsed)
  have "getitem sch ''responses'' = Inr (JObject (merged load fs (responses fs) []))"
    by (simp add: sch composed_def getitem_def)
  moreover have "fst ` set (merged load fs (responses fs) [])
      = {k. \<exists>f \<in> set (responses fs). response_key f = Inr k}"
    using merged_keys [OF all, of "[]"] by (simp add: key_of_image)
  ultimately show "\<exists>rs. getitem sch ''responses'' = Inr (JObject rs)
      \<and> fst ` set rs = {k. \<exists>f \<in> set (responses fs). response_key f = Inr k}"
    by blast
qed


text \<open>
  An instance: \<open>dir_full\<close>, whose subdirectory \<open>notes\<close> holds a file with the marker.
\<close>

theorem discovery_selects_marked_regular_files_witness:
  "responses dir_full =
     [''get_vote_response.json'', ''foo_response.json'', ''foo_response.json_response.json'']
   \<and> responses dir_full =
     filter (\<lambda>f. (\<exists>text. map_of dir_full f = Some (File text))
                  \<and> suffix ''_response.json'' f) (map fst dir_full)
   \<and> responses (top_level dir_full) = responses dir_full
   \<and> compose demo_load dir_full = Inr dir_full_schema
   \<and> (\<exists>v. load_file demo_load dir_full ''get_vote_response.json'' = Inr v)
   \<and> (\<exists>v. load_file demo_load dir_full ''foo_response.json'' = Inr v)
   \<and> (\<exists>v. load_file demo_load dir_full ''foo_response.json_response.json'' = Inr v)
   \<and> (\<exists>rs. getitem dir_full_schema ''responses'' = Inr (JObject rs)
         \<and> fst ` set rs = {k. \<exists>f \<in> set (responses dir_full). response_key f = Inr k})"
proof -
  have r: "responses dir_full =
     [''get_vote_response.json'', ''foo_response.json'', ''foo_response.json_response.json'']"
    by code_simp
  have c: "compose demo_load dir_full = Inr dir_full_schema" by code_simp
  note t = discovery_selects_marked_regular_files [of dir_full]
  from t have a: "responses dir_full =
     filter (\<lambda>f. (\<exists>text. map_of dir_full f = Some (File text))
                  \<and> suffix ''_response.json'' f) (map fst dir_full)"
    by (rule conjunct1)
  from t have b: "responses (top_level dir_full) = responses dir_full"
    by (rule conjunct2 [THEN conjunct1])
  from t c have d: "(\<forall>f \<in> set (responses dir_full). \<exists>v. load_file demo_load dir_full f = Inr v)
     \<and> (\<exists>rs. getitem dir_full_schema ''responses'' = Inr (JObject rs)
         \<and> fst ` set rs = {k. \<exists>f \<in> set (responses dir_full). response_key f = Inr k})"
    by blast
  from d have e: "\<forall>f \<in> set [''get_vote_response.json'', ''foo_response.json'',
      ''foo_response.json_response.json'']. \<exists>v. load_file demo_load dir_full f = Inr v"
    unfolding r by (rule conjunct1)
  from e have e1: "\<exists>v. load_file demo_load dir_full ''get_vote_response.json'' = Inr v"
    and e2: "\<exists>v. load_file demo_load dir_full ''foo_response.json'' = Inr v"
    and e3: "\<exists>v. load_file demo_load dir_full ''foo_response.json_response.json'' = Inr v"
    by simp_all
  from d have g: "\<exists>rs. getitem dir_full_schema ''responses'' = Inr (JObject rs)
         \<and> fst ` set rs = {k. \<exists>f \<in> set (responses dir_full). response_key f = Inr k}"
    by (rule conjunct2)
  from r a b c e1 e2 e3 g show ?thesis by (intro conjI)
qed

subsection \<open>The output file and a second run\<close>

lemma output_not_marked: "\<not> suffix ''_response.json'' output_name"
proof -
  have "\<not> endswith output_name ''_response.json''" by code_simp
  then show ?thesis by (simp add: endswith_suffix)
qed

lemma responses_update_output:
  "responses (AList.update output_name e fs) = responses fs"
proof -
  let ?P = "\<lambda>fs f. (\<exists>text. map_of fs f = Some (File text)) \<and> suffix ''_response.json'' f"
  have P: "?P (AList.update output_name e fs) f = ?P fs f" for f
    using output_not_marked by (cases "f = output_name") (auto simp: update_conv')
  have k: "\<not> ?P fs output_name" using output_not_marked by simp
  have "filter (?P fs) (map fst (AList.update output_name e fs)) = filter (?P fs) (map fst fs)"
    using k by (simp add: update_keys)
  then show ?thesis by (simp add: responses_filter P)
qed

lemma load_file_update_other:
  "name \<noteq> k \<Longrightarrow> load_file load (AList.update k e fs) name = load_file load fs name"
  by (simp add: load_file_def open_read_def update_conv')

lemma collect_cong:
  "\<forall>f \<in> set fl. load_file load fs1 f = load_file load fs2 f \<Longrightarrow>
     collect load fs1 fl sch = collect load fs2 fl sch"
  by (induction fl arbitrary: sch) (auto split: sum.splits)

lemma responses_marked: "f \<in> set (responses fs) \<Longrightarrow> suffix ''_response.json'' f"
  by (simp add: responses_filter)

lemma compose_update_output:
  "compose load (AList.update output_name e fs) = compose load fs"
proof -
  let ?fs = "AList.update output_name e fs"
  have "\<forall>f \<in> set (responses fs). load_file load ?fs f = load_file load fs f"
    using output_not_marked responses_marked
    by (auto intro!: load_file_update_other)
  then have c: "collect load ?fs (responses fs) sch = collect load fs (responses fs) sch"
    for sch by (rule collect_cong)
  have l: "load_file load ?fs ''instantiate_msg.json'' = load_file load fs ''instantiate_msg.json''"
    "load_file load ?fs ''execute_msg.json'' = load_file load fs ''execute_msg.json''"
    "load_file load ?fs ''query_msg.json'' = load_file load fs ''query_msg.json''"
    by (rule load_file_update_other, simp add: output_name_def)+
  show ?thesis
    by (simp add: compose_def responses_update_output c l split: sum.splits)
qed

text \<open>
  Claim C10. The name of the output file does not end with \<open>_response.json\<close>, so it
  is never among the response files; whether the working directory holds an output
  file, and what that file holds, changes neither the response files nor the
  dictionary the script composes; this holds in particular for the directory that a
  run leaves.
\<close>

theorem output_is_never_a_response:
  "\<not> endswith output_name ''_response.json''
   \<and> output_name \<notin> set (responses fs)
   \<and> responses (AList.update output_name e fs) = responses fs
   \<and> compose load (AList.update output_name e fs) = compose load fs
   \<and> responses (snd (run load dump fs)) = responses fs
   \<and> compose load (snd (run load dump fs)) = compose load fs"
proof -
  have a: "\<not> endswith output_name ''_response.json''"
    using output_not_marked by (simp add: endswith_suffix)
  have b: "output_name \<notin> set (responses fs)"
    using output_not_marked responses_marked by blast
  have "snd (run load dump fs) = fs \<or> (\<exists>t. snd (run load dump fs) = AList.update output_name (File t) fs)"
    by (auto simp: run_def open_write_def split: sum.splits option.splits entry.splits)
  then have c: "responses (snd (run load dump fs)) = responses fs"
    and d: "compose load (snd (run load dump fs)) = compose load fs"
    by (auto simp: responses_update_output compose_update_output)
  from a b c d show ?thesis
    by (simp add: responses_update_output compose_update_output)
qed

text \<open>An instance: the directory left by the run in \<open>dir_full\<close>.\<close>

theorem output_is_never_a_response_witness:
  "run demo_load demo_dump dir_full = (Inr (), dir_full_after)
   \<and> map_of dir_full_after output_name = Some (File (demo_dump (JObject dir_full_schema)))
   \<and> \<not> endswith output_name ''_response.json''
   \<and> output_name \<notin> set (responses dir_full_after)
   \<and> responses dir_full_after = responses dir_full
   \<and> compose demo_load dir_full_after = compose demo_load dir_full
   \<and> compose demo_load dir_full_after = Inr dir_full_schema"
proof -
  have r: "run demo_load demo_dump dir_full = (Inr (), dir_full_after)" by code_simp
  have m: "map_of dir_full_after output_name = Some (File (demo_dump (JObject dir_full_schema)))"
    by code_simp
  have c: "compose demo_load dir_full = Inr dir_full_schema" by code_simp
  from output_is_never_a_response [of dir_full_after "File []" demo_load demo_dump]
    output_is_never_a_response [of dir_full "File []" demo_load demo_dump] r m c
  show ?thesis by simp
qed

text \<open>
  Claim C8. A successful run composes the ComposedSchema of the three mandatory
  Fragments and the response mapping, a function of these four; a second run in the
  directory the first one left succeeds and leaves the same directory, with the same
  output file.
\<close>

theorem rerun_gives_same_output:
  assumes "run load dump fs = (Inr (), fs')"
  shows "run load dump fs' = (Inr (), fs')
     \<and> (\<exists>i x q. load_file load fs ''instantiate_msg.json'' = Inr i
           \<and> load_file load fs ''execute_msg.json'' = Inr x
           \<and> load_file load fs ''query_msg.json'' = Inr q
           \<and> compose load fs = Inr (composed i x q (merged load fs (responses fs) []))
           \<and> map_of fs' output_name =
               Some (File (dump (JObject (composed i x q (merged load fs (responses fs) []))))))"
proof -
  from run_success [OF assms] obtain sch where c: "compose load fs = Inr sch"
    and fs': "fs' = AList.update output_name (File (dump (JObject sch))) fs" by blast
  have c': "compose load fs' = Inr sch" by (simp add: fs' compose_update_output c)
  have nd: "\<forall>d. map_of fs' output_name \<noteq> Some (Dir d)" by (simp add: fs' update_conv')
  have "run load dump fs' = (Inr (), AList.update output_name (File (dump (JObject sch))) fs')"
    by (rule run_ok [OF c' nd])
  then have again: "run load dump fs' = (Inr (), fs')" by (simp add: fs')
  from compose_Inr [OF c] obtain i x q where
    p: "parsed load fs ''instantiate_msg.json'' = Some i"
       "parsed load fs ''execute_msg.json'' = Some x"
       "parsed load fs ''query_msg.json'' = Some q"
    and sch: "sch = composed i x q (merged load fs (responses fs) [])" by blast
  from p have l: "load_file load fs ''instantiate_msg.json'' = Inr i"
    "load_file load fs ''execute_msg.json'' = Inr x"
    "load_file load fs ''query_msg.json'' = Inr q"
    by (simp_all add: load_file_parsed)
  have w: "map_of fs' output_name = Some (File (dump (JObject sch)))"
    by (simp add: fs' update_conv')
  from again l c w show ?thesis unfolding sch
    by (intro conjI exI [of _ i] exI [of _ x] exI [of _ q])
qed

text \<open>An instance: two runs in \<open>dir_full\<close>.\<close>

theorem rerun_gives_same_output_witness:
  "run demo_load demo_dump dir_full = (Inr (), dir_full_after)
   \<and> run demo_load demo_dump dir_full_after = (Inr (), dir_full_after)
   \<and> (\<exists>i x q. load_file demo_load dir_full ''instantiate_msg.json'' = Inr i
           \<and> load_file demo_load dir_full ''execute_msg.json'' = Inr x
           \<and> load_file demo_load dir_full ''query_msg.json'' = Inr q
           \<and> compose demo_load dir_full
               = Inr (composed i x q (merged demo_load dir_full (responses dir_full) []))
           \<and> map_of dir_full_after output_name =
               Some (File (demo_dump (JObject
                 (composed i x q (merged demo_load dir_full (responses dir_full) []))))))"
proof -
  have r: "run demo_load demo_dump dir_full = (Inr (), dir_full_after)" by code_simp
  from rerun_gives_same_output [OF r] r show ?thesis by simp
qed

subsection \<open>The keys of the response mapping\<close>

lemma merged_append:
  "merged load fs (a @ b) r = merged load fs b (merged load fs a r)"
  by (simp add: merged_def)

lemma merged_other:
  "\<forall>g \<in> set fl. key_of g \<noteq> k \<Longrightarrow> map_of (merged load fs fl r) k = map_of r k"
proof (induction fl arbitrary: r)
  case Nil
  then show ?case by (simp add: merged_def)
next
  case (Cons g fl)
  show ?case
  proof (cases "parsed load fs g")
    case None
    then have "merged load fs (g # fl) r = merged load fs fl r" by (simp add: merged_def)
    with Cons show ?thesis by simp
  next
    case (Some v)
    from Cons.IH [of "AList.update (key_of g) v r"] Cons.prems
    show ?thesis by (auto simp: merged_Cons [OF Some] update_conv')
  qed
qed

lemma merged_last:
  assumes "parsed load fs f = Some v" and "\<forall>g \<in> set post. key_of g \<noteq> key_of f"
  shows "map_of (merged load fs (pre @ f # post) r) (key_of f) = Some v"
proof -
  have "merged load fs (pre @ f # post) r
      = merged load fs post (AList.update (key_of f) v (merged load fs pre r))"
    by (simp add: merged_append merged_Cons [OF assms(1)])
  then show ?thesis by (simp add: merged_other [OF assms(2)] update_conv')
qed

lemma merged_distinct:
  "distinct (map fst r) \<Longrightarrow> distinct (map fst (merged load fs fl r))"
proof (induction fl arbitrary: r)
  case Nil
  then show ?case by (simp add: merged_def)
next
  case (Cons g fl)
  show ?case
  proof (cases "parsed load fs g")
    case None
    then have "merged load fs (g # fl) r = merged load fs fl r" by (simp add: merged_def)
    with Cons show ?thesis by simp
  next
    case (Some v)
    from Cons.IH [of "AList.update (key_of g) v r"] Cons.prems
    show ?thesis by (simp add: merged_Cons [OF Some] distinct_update)
  qed
qed

lemma stored_under_key:
  assumes c: "compose load fs = Inr sch"
    and r: "responses fs = pre @ f # post"
    and l: "\<forall>g \<in> set post. response_key g \<noteq> response_key f"
  shows "\<exists>rs. getitem sch ''responses'' = Inr (JObject rs)
           \<and> getitem rs (key_of f) = load_file load fs f
           \<and> distinct (map fst rs)"
proof -
  from compose_Inr [OF c] obtain i x q where
    all: "\<forall>f \<in> set (responses fs). parsed load fs f \<noteq> None"
    and sch: "sch = composed i x q (merged load fs (responses fs) [])" by blast
  from all r obtain v where v: "parsed load fs f = Some v" by auto
  from l have l': "\<forall>g \<in> set post. key_of g \<noteq> key_of f" by (simp add: response_key_eq)
  let ?rs = "merged load fs (responses fs) []"
  have "getitem sch ''responses'' = Inr (JObject ?rs)"
    by (simp add: sch composed_def getitem_def)
  moreover have "getitem ?rs (key_of f) = load_file load fs f"
    using merged_last [OF v l', of pre "[]"] v
    by (simp add: r getitem_def load_file_parsed [THEN iffD2])
  moreover have "distinct (map fst ?rs)" by (rule merged_distinct) simp
  ultimately show ?thesis by blast
qed

lemma key_of_decomp:
  assumes "suffix ''_response.json'' f"
  shows "\<exists>rest. f = key_of f @ ''_response.json'' @ rest"
    and "f = p @ ''_response.json'' @ r \<Longrightarrow> length (key_of f) \<le> length p"
proof -
  from assms obtain p0 where "f = p0 @ ''_response.json'' @ []" by (auto simp: suffix_def)
  from before_first_decomp [OF this] show "\<exists>rest. f = key_of f @ ''_response.json'' @ rest"
    by (auto simp: key_of_def)
  assume "f = p @ ''_response.json'' @ r"
  from before_first_decomp [OF this] show "length (key_of f) \<le> length p"
    by (auto simp: key_of_def)
qed

text \<open>
  Claim C4, as stated: the key of a collected response file is the text of its name
  before the marker string \<open>_response\<close>. It fails for a name that holds \<open>_response\<close>
  before its final \<open>_response.json\<close>: the file \<open>a_response_b_response.json_response.json\<close>
  is collected and stored under \<open>a_response_b\<close>, which is neither the text before the
  first \<open>_response\<close> of the name nor the text before the last one.
\<close>

theorem response_key_not_before_response_counterexample:
  "responses dir_nested = [''a_response_b_response.json_response.json'']
   \<and> compose demo_load dir_nested =
       Inr (composed (JObject []) (JObject []) (JObject []) [(''a_response_b'', JNull)])
   \<and> response_key ''a_response_b_response.json_response.json'' = Inr ''a_response_b''
   \<and> before_first ''_response'' ''a_response_b_response.json_response.json'' = ''a''
   \<and> before_last ''_response'' ''a_response_b_response.json_response.json''
       = ''a_response_b_response.json''
   \<and> response_key ''a_response_b_response.json_response.json''
       \<noteq> Inr (before_first ''_response'' ''a_response_b_response.json_response.json'')
   \<and> response_key ''a_response_b_response.json_response.json''
       \<noteq> Inr (before_last ''_response'' ''a_response_b_response.json_response.json'')"
  by code_simp

text \<open>
  Claim C4, amended: the key of a collected response file is the text of its name
  before the first occurrence of \<open>_response.json\<close>, everything from there on removed;
  it is computed from the name alone. In a run that composes a dictionary, the parsed
  contents of the file are stored in \<open>responses\<close> under that key, unless a response
  file later in the listing derives the same key. The file \<open>get_vote_response.json\<close>
  yields the key \<open>get_vote\<close>.
\<close>

theorem response_key_is_text_before_marker:
  assumes "responses fs = pre @ f # post"
  shows "\<exists>k rest. response_key f = Inr k
           \<and> f = k @ ''_response.json'' @ rest
           \<and> (\<forall>p r. f = p @ ''_response.json'' @ r \<longrightarrow> length k \<le> length p)
           \<and> (\<forall>load sch. compose load fs = Inr sch
                  \<and> (\<forall>g \<in> set post. response_key g \<noteq> Inr k) \<longrightarrow>
                (\<exists>rs. getitem sch ''responses'' = Inr (JObject rs)
                      \<and> getitem rs k = load_file load fs f))
           \<and> response_key ''get_vote_response.json'' = Inr ''get_vote''"
proof -
  from assms have "f \<in> set (responses fs)" by simp
  then have m: "suffix ''_response.json'' f" by (rule responses_marked)
  from key_of_decomp(1) [OF m] obtain rest where
    d: "f = key_of f @ ''_response.json'' @ rest" by blast
  have least: "\<forall>p r. f = p @ ''_response.json'' @ r \<longrightarrow> length (key_of f) \<le> length p"
    using key_of_decomp(2) [OF m] by blast
  have stored: "\<forall>load sch. compose load fs = Inr sch
                  \<and> (\<forall>g \<in> set post. response_key g \<noteq> Inr (key_of f)) \<longrightarrow>
                (\<exists>rs. getitem sch ''responses'' = Inr (JObject rs)
                      \<and> getitem rs (key_of f) = load_file load fs f)"
    using stored_under_key [OF _ assms] by (fastforce simp: response_key_eq)
  have ex: "response_key ''get_vote_response.json'' = Inr ''get_vote''" by code_simp
  from d least stored ex show ?thesis
    by (intro exI [of _ "key_of f"] exI [of _ rest] conjI) (simp_all add: response_key_eq)
qed


text \<open>An instance: \<open>get_vote_response.json\<close> in \<open>dir_full\<close>.\<close>

theorem response_key_is_text_before_marker_witness:
  "responses dir_full =
     [] @ ''get_vote_response.json''
        # [''foo_response.json'', ''foo_response.json_response.json'']
   \<and> compose demo_load dir_full = Inr dir_full_schema
   \<and> response_key ''get_vote_response.json'' = Inr ''get_vote''
   \<and> ''get_vote_response.json'' = ''get_vote'' @ ''_response.json'' @ []
   \<and> response_key ''foo_response.json'' \<noteq> Inr ''get_vote''
   \<and> response_key ''foo_response.json_response.json'' \<noteq> Inr ''get_vote''
   \<and> (\<exists>rs. getitem dir_full_schema ''responses'' = Inr (JObject rs)
         \<and> getitem rs ''get_vote'' = load_file demo_load dir_full ''get_vote_response.json'')"
proof -
  have r: "responses dir_full =
     [] @ ''get_vote_response.json''
        # [''foo_response.json'', ''foo_response.json_response.json'']"
    by code_simp
  have c: "compose demo_load dir_full = Inr dir_full_schema" by code_simp
  have k: "response_key ''get_vote_response.json'' = Inr ''get_vote''" by code_simp
  have n: "\<forall>g \<in> set [''foo_response.json'', ''foo_response.json_response.json''].
         response_key g \<noteq> Inr ''get_vote''"
    by code_simp
  from response_key_is_text_before_marker [OF r] obtain k' where
    k': "response_key ''get_vote_response.json'' = Inr k'"
    and st: "\<forall>(load :: string \<Rightarrow> nat json option) sch. compose load dir_full = Inr sch
        \<and> (\<forall>g \<in> set [''foo_response.json'', ''foo_response.json_response.json''].
              response_key g \<noteq> Inr k') \<longrightarrow>
        (\<exists>rs. getitem sch ''responses'' = Inr (JObject rs)
              \<and> getitem rs k' = load_file load dir_full ''get_vote_response.json'')"
    by blast
  from k k' have e: "k' = ''get_vote''" by simp
  from st c n have "\<exists>rs. getitem dir_full_schema ''responses'' = Inr (JObject rs)
         \<and> getitem rs ''get_vote'' = load_file demo_load dir_full ''get_vote_response.json''"
    unfolding e by blast
  with r c k n show ?thesis by simp
qed

text \<open>
  Claim C6. When two collected response files derive the same key and every fragment
  loads, the run succeeds as it would without the collision, and \<open>responses\<close> holds
  one entry for that key: the parsed contents of the file that comes later in the
  listing (the last one with that key).
\<close>

theorem later_response_overwrites:
  assumes "responses fs = pre @ f1 # mid @ f2 # post"
    and "response_key f1 = response_key f2"
    and "\<forall>g \<in> set post. response_key g \<noteq> response_key f2"
    and "\<forall>n \<in> set required \<union> set (responses fs). \<exists>v. load_file load fs n = Inr v"
    and "\<forall>d. map_of fs output_name \<noteq> Some (Dir d)"
  shows "\<exists>sch rs k.
           run load dump fs
             = (Inr (), AList.update output_name (File (dump (JObject sch))) fs)
           \<and> compose load fs = Inr sch
           \<and> response_key f1 = Inr k \<and> response_key f2 = Inr k
           \<and> getitem sch ''responses'' = Inr (JObject rs)
           \<and> getitem rs k = load_file load fs f2
           \<and> distinct (map fst rs)"
proof -
  from assms(4) obtain i x q where
    p: "parsed load fs ''instantiate_msg.json'' = Some i"
       "parsed load fs ''execute_msg.json'' = Some x"
       "parsed load fs ''query_msg.json'' = Some q"
    by (auto simp: required_def load_file_parsed)
  from assms(4) have all: "\<forall>f \<in> set (responses fs). parsed load fs f \<noteq> None"
    by (auto simp: load_file_parsed)
  let ?sch = "composed i x q (merged load fs (responses fs) [])"
  have c: "compose load fs = Inr ?sch" by (rule compose_ok [OF p all])
  have run: "run load dump fs
      = (Inr (), AList.update output_name (File (dump (JObject ?sch))) fs)"
    by (rule run_ok [OF c assms(5)])
  have r: "responses fs = (pre @ f1 # mid) @ f2 # post" by (simp add: assms(1))
  from stored_under_key [OF c r assms(3)] obtain rs where
    rs: "getitem ?sch ''responses'' = Inr (JObject rs)"
        "getitem rs (key_of f2) = load_file load fs f2"
        "distinct (map fst rs)"
    by blast
  have k: "response_key f1 = Inr (key_of f2)" "response_key f2 = Inr (key_of f2)"
    using assms(2) by (simp_all add: response_key_eq)
  from run c k rs show ?thesis
    by (intro exI [of _ ?sch] exI [of _ rs] exI [of _ "key_of f2"] conjI)
qed

text \<open>
  An instance: \<open>foo_response.json\<close> and \<open>foo_response.json_response.json\<close> both derive
  \<open>foo\<close>; the second one, an empty array, is what \<open>responses\<close> holds.
\<close>

theorem later_response_overwrites_witness:
  "responses dir_full =
     [''get_vote_response.json''] @ ''foo_response.json''
        # [] @ ''foo_response.json_response.json'' # []
   \<and> response_key ''foo_response.json'' = Inr ''foo''
   \<and> response_key ''foo_response.json_response.json'' = Inr ''foo''
   \<and> load_file demo_load dir_full ''foo_response.json'' = Inr JNull
   \<and> load_file demo_load dir_full ''foo_response.json_response.json'' = Inr (JArray [])
   \<and> load_file demo_load dir_full ''instantiate_msg.json'' = Inr (JObject [])
   \<and> load_file demo_load dir_full ''execute_msg.json'' = Inr (JArray [])
   \<and> load_file demo_load dir_full ''query_msg.json'' = Inr JNull
   \<and> load_file demo_load dir_full ''get_vote_response.json'' = Inr (JBool True)
   \<and> map_of dir_full output_name = None
   \<and> (\<exists>sch rs.
         run demo_load demo_dump dir_full
           = (Inr (), AList.update output_name (File (demo_dump (JObject sch))) dir_full)
         \<and> compose demo_load dir_full = Inr sch
         \<and> getitem sch ''responses'' = Inr (JObject rs)
         \<and> getitem rs ''foo'' = Inr (JArray [])
         \<and> distinct (map fst rs))"
proof -
  have r: "responses dir_full =
     [''get_vote_response.json''] @ ''foo_response.json''
        # [] @ ''foo_response.json_response.json'' # []"
    by code_simp
  have k1: "response_key ''foo_response.json'' = Inr ''foo''" by code_simp
  have k2: "response_key ''foo_response.json_response.json'' = Inr ''foo''" by code_simp
  have l1: "load_file demo_load dir_full ''foo_response.json'' = Inr JNull" by code_simp
  have l2: "load_file demo_load dir_full ''foo_response.json_response.json'' = Inr (JArray [])"
    by code_simp
  have a: "\<forall>n \<in> set required \<union> set (responses dir_full).
         \<exists>v. load_file demo_load dir_full n = Inr v"
    unfolding r by (simp add: required_def load_file_def open_read_def demo_load_def dir_full_def)
  have m: "map_of dir_full output_name = None" by code_simp
  then have d: "\<forall>d. map_of dir_full output_name \<noteq> Some (Dir d)" by simp
  have l3: "load_file demo_load dir_full ''instantiate_msg.json'' = Inr (JObject [])"
    "load_file demo_load dir_full ''execute_msg.json'' = Inr (JArray [])"
    "load_file demo_load dir_full ''query_msg.json'' = Inr JNull"
    "load_file demo_load dir_full ''get_vote_response.json'' = Inr (JBool True)"
    by code_simp+
  have e: "response_key ''foo_response.json'' = response_key ''foo_response.json_response.json''"
    by (simp add: k1 k2)
  have p: "\<forall>g \<in> set []. response_key g \<noteq> response_key ''foo_response.json_response.json''"
    by simp
  from later_response_overwrites [OF r e p a d, of demo_dump] k2 l2
  have "\<exists>sch rs.
         run demo_load demo_dump dir_full
           = (Inr (), AList.update output_name (File (demo_dump (JObject sch))) dir_full)
         \<and> compose demo_load dir_full = Inr sch
         \<and> getitem sch ''responses'' = Inr (JObject rs)
         \<and> getitem rs ''foo'' = Inr (JArray [])
         \<and> distinct (map fst rs)"
    by auto
  with r k1 k2 l1 l2 l3 m show ?thesis by blast
qed

text \<open>
  Claim C9, as stated: the parsed contents of a regular file named \<open>_response.json\<close>
  appear in the output under the empty key. It fails when a response file that comes
  later in the listing derives the empty key too: in \<open>dir_marker_twice\<close> the run
  succeeds, \<open>_response.json\<close> parses to \<open>null\<close>, and the empty key holds the empty array
  of \<open>_response.json_response.json\<close>.
\<close>

theorem marker_only_file_overwritten_counterexample:
  "isfile dir_marker_twice ''_response.json''
   \<and> responses dir_marker_twice = [''_response.json'', ''_response.json_response.json'']
   \<and> load_file demo_load dir_marker_twice ''_response.json'' = Inr JNull
   \<and> fst (run demo_load demo_dump dir_marker_twice) = Inr ()
   \<and> compose demo_load dir_marker_twice =
       Inr (composed (JObject []) (JObject []) (JObject []) [([], JArray [])])
   \<and> getitem [([], JArray [])] []
       \<noteq> load_file demo_load dir_marker_twice ''_response.json''"
  by code_simp

text \<open>
  Claim C9, amended: a regular file named \<open>_response.json\<close> is collected as a response
  file and derives the empty key; in a run that composes a dictionary its parsed
  contents are stored in \<open>responses\<close> under the empty key, unless a response file later
  in the listing derives the empty key as well.
\<close>

theorem marker_only_file_gets_empty_key:
  assumes "isfile fs ''_response.json''"
  shows "''_response.json'' \<in> set (responses fs)
     \<and> response_key ''_response.json'' = Inr []
     \<and> (\<forall>load sch pre post.
           compose load fs = Inr sch
           \<and> responses fs = pre @ ''_response.json'' # post
           \<and> (\<forall>g \<in> set post. response_key g \<noteq> Inr []) \<longrightarrow>
           (\<exists>rs. getitem sch ''responses'' = Inr (JObject rs)
                 \<and> getitem rs [] = load_file load fs ''_response.json''))"
proof -
  have k: "response_key ''_response.json'' = Inr []" by code_simp
  then have ko: "key_of ''_response.json'' = []" by (simp add: response_key_eq)
  from assms obtain t where "map_of fs ''_response.json'' = Some (File t)"
    by (auto simp: isfile_iff)
  then have "''_response.json'' \<in> set (responses fs)"
    by (auto simp: responses_filter dest: map_of_SomeD intro: rev_image_eqI)
  moreover have "\<exists>rs. getitem sch ''responses'' = Inr (JObject rs)
                 \<and> getitem rs [] = load_file load fs ''_response.json''"
    if "compose load fs = Inr sch" and "responses fs = pre @ ''_response.json'' # post"
      and "\<forall>g \<in> set post. response_key g \<noteq> Inr []"
    for load :: "string \<Rightarrow> 'a json option" and sch pre post
    using stored_under_key [OF that(1,2)] that(3) by (auto simp: k ko)
  ultimately show ?thesis using k by blast
qed

text \<open>An instance: \<open>dir_marker_only\<close>.\<close>

theorem marker_only_file_gets_empty_key_witness:
  "isfile dir_marker_only ''_response.json''
   \<and> ''_response.json'' \<in> set (responses dir_marker_only)
   \<and> response_key ''_response.json'' = Inr []
   \<and> responses dir_marker_only = [] @ ''_response.json'' # []
   \<and> compose demo_load dir_marker_only =
       Inr (composed (JObject []) (JObject []) (JObject []) [([], JNull)])
   \<and> load_file demo_load dir_marker_only ''_response.json'' = Inr JNull
   \<and> (\<exists>rs. getitem (composed (JObject []) (JObject []) (JObject []) [([], JNull :: nat json)])
               ''responses'' = Inr (JObject rs)
         \<and> getitem rs [] = load_file demo_load dir_marker_only ''_response.json'')"
proof -
  have i: "isfile dir_marker_only ''_response.json''" by code_simp
  have r: "responses dir_marker_only = [] @ ''_response.json'' # []" by code_simp
  have c: "compose demo_load dir_marker_only =
       Inr (composed (JObject []) (JObject []) (JObject []) [([], JNull)])"
    by code_simp
  have l: "load_file demo_load dir_marker_only ''_response.json'' = Inr JNull" by code_simp
  have n: "\<forall>g \<in> set []. response_key g \<noteq> Inr []" by simp
  note t = marker_only_file_gets_empty_key [OF i]
  from t have a: "''_response.json'' \<in> set (responses dir_marker_only)"
    and k: "response_key ''_response.json'' = Inr []"
    by blast+
  from t have "\<forall>(load :: string \<Rightarrow> nat json option) sch pre post.
           compose load dir_marker_only = Inr sch
           \<and> responses dir_marker_only = pre @ ''_response.json'' # post
           \<and> (\<forall>g \<in> set post. response_key g \<noteq> Inr []) \<longrightarrow>
           (\<exists>rs. getitem sch ''responses'' = Inr (JObject rs)
                 \<and> getitem rs [] = load_file load dir_marker_only ''_response.json'')"
    by blast
  with c r n have "\<exists>rs. getitem (composed (JObject []) (JObject []) (JObject []) [([], JNull :: nat json)])
               ''responses'' = Inr (JObject rs)
         \<and> getitem rs [] = load_file demo_load dir_marker_only ''_response.json''"
    by blast
  with i a k r c l show ?thesis by blast
qed

end
